theory Spec2Isabelle
  imports Main
begin

section \<open>Python strings\<close>

text \<open>
  A Python \<open>str\<close> is modelled as a \<open>string\<close>; each \<open>char\<close> stands for the code point of
  the same number (0 to 255).  In that range the characters removed by \<open>str.strip()\<close> are
  0x09 to 0x0D, 0x1C to 0x20, 0x85 and 0xA0; \<open>int()\<close> skips fewer around the digits, namely
  0x09 to 0x0D, 0x20, 0x85 and 0xA0, and raises on 0x1C to 0x1F.  The only decimal digits
  are \<open>0\<close> to \<open>9\<close>.  Python integers are unbounded: \<open>int\<close>; the
  interpreter's limit on the length of the decimal form of an integer is taken as
  switched off.
\<close>

definition py_isspace :: "char \<Rightarrow> bool" where
  "py_isspace c \<longleftrightarrow> c \<in> set [CHR 0x09, CHR 0x0A, CHR 0x0B, CHR 0x0C, CHR 0x0D,
      CHR 0x1C, CHR 0x1D, CHR 0x1E, CHR 0x1F, CHR 0x20, CHR 0x85, CHR 0xA0]"

text \<open>\<open>s.strip()\<close>\<close>

definition py_strip :: "string \<Rightarrow> string" where
  "py_strip s = rev (dropWhile py_isspace (rev (dropWhile py_isspace s)))"

text \<open>The white space that \<open>int()\<close> skips before the sign and after the digits.\<close>

definition int_isspace :: "char \<Rightarrow> bool" where
  "int_isspace c \<longleftrightarrow> c \<in> set [CHR 0x09, CHR 0x0A, CHR 0x0B, CHR 0x0C, CHR 0x0D,
      CHR 0x20, CHR 0x85, CHR 0xA0]"

definition int_strip :: "string \<Rightarrow> string" where
  "int_strip s = rev (dropWhile int_isspace (rev (dropWhile int_isspace s)))"

text \<open>\<open>s.split(sep)\<close> for a one-character separator; the result is never empty.\<close>

fun py_split :: "char \<Rightarrow> string \<Rightarrow> string list" where
  "py_split sep [] = [[]]"
| "py_split sep (c # cs) =
     (if c = sep then [] # py_split sep cs
      else (case py_split sep cs of
              [] \<Rightarrow> [[c]]
            | p # ps \<Rightarrow> (c # p) # ps))"

definition is_digit :: "char \<Rightarrow> bool" where
  "is_digit c \<longleftrightarrow> c \<in> set ''0123456789''"

text \<open>The value of a digit is its place in the row of digits.\<close>

definition digit_val :: "char \<Rightarrow> nat" where
  "digit_val c = length (takeWhile (\<lambda>d. d \<noteq> c) ''0123456789'')"

definition digit_char :: "nat \<Rightarrow> char" where
  "digit_char d = ''0123456789'' ! d"

text \<open>
  The digit part of an \<open>int()\<close> literal in base 10: digits, with single underscores allowed
  between two digits only.
\<close>

fun valid_digits :: "string \<Rightarrow> bool" where
  "valid_digits [] = False"
| "valid_digits [c] = is_digit c"
| "valid_digits (c # d # r) =
     (if d = CHR ''_'' then is_digit c \<and> valid_digits r
      else is_digit c \<and> valid_digits (d # r))"

definition digits_value :: "string \<Rightarrow> nat" where
  "digits_value s = fold (\<lambda>c acc. if c = CHR ''_'' then acc else 10 * acc + digit_val c) s 0"

definition parse_digits :: "string \<Rightarrow> int option" where
  "parse_digits r = (if valid_digits r then Some (int (digits_value r)) else None)"

text \<open>\<open>int(s)\<close>; \<open>None\<close> is the \<open>ValueError\<close>.\<close>

definition py_int :: "string \<Rightarrow> int option" where
  "py_int s =
     (case int_strip s of
        [] \<Rightarrow> None
      | c # r \<Rightarrow>
          if c = CHR ''+'' then parse_digits r
          else if c = CHR ''-'' then map_option uminus (parse_digits r)
          else parse_digits (c # r))"

text \<open>\<open>str(n)\<close> for \<open>n \<ge> 0\<close>.\<close>

fun dec_digits :: "nat \<Rightarrow> string" where
  "dec_digits n = (if n < 10 then [digit_char n]
                   else dec_digits (n div 10) @ [digit_char (n mod 10)])"

declare dec_digits.simps [simp del]

text \<open>\<open>f"{i:04d}"\<close>: zero padding to width 4, the sign counted in the width.\<close>

definition format_04d :: "int \<Rightarrow> string" where
  "format_04d i =
     (if i < 0
      then (let d = dec_digits (nat (- i)) in CHR ''-'' # replicate (3 - length d) CHR ''0'' @ d)
      else (let d = dec_digits (nat i) in replicate (4 - length d) CHR ''0'' @ d))"

section \<open>Assets and the tag generator\<close>

text \<open>
  An asset is a JSON object with string values, kept as an association list; a key may be
  missing.  \<open>a.get(k)\<close> is \<open>map_of a k\<close>.
\<close>

type_synonym asset = "(string \<times> string) list"

text \<open>\<open>asset.get('tag', '')\<close>\<close>

definition get_tag :: "asset \<Rightarrow> string" where
  "get_tag a = (case map_of a ''tag'' of None \<Rightarrow> [] | Some t \<Rightarrow> t)"

text \<open>The filter of \<open>generate_asset_tag\<close>.\<close>

definition same_codes :: "string \<Rightarrow> string \<Rightarrow> asset \<Rightarrow> bool" where
  "same_codes country_code manufacturer_code a \<longleftrightarrow>
     map_of a ''country_code'' = Some country_code \<and>
     map_of a ''manufacturer_code'' = Some manufacturer_code"

text \<open>The loop that collects \<open>numbers\<close>.\<close>

fun extract_numbers :: "asset list \<Rightarrow> int list \<Rightarrow> int list" where
  "extract_numbers [] numbers = numbers"
| "extract_numbers (a # as) numbers =
     (let tag = get_tag a in
      if CHR ''-'' \<in> set tag then
        (case py_int (last (py_split CHR ''-'' tag)) of
           Some number \<Rightarrow> extract_numbers as (numbers @ [number])
         | None \<Rightarrow> extract_numbers as numbers)
      else extract_numbers as numbers)"

text \<open>\<open>max(numbers)\<close> of a non-empty list.\<close>

definition py_max :: "int list \<Rightarrow> int" where
  "py_max ns = fold max (tl ns) (hd ns)"

definition next_number :: "string \<Rightarrow> string \<Rightarrow> asset list \<Rightarrow> int" where
  "next_number country_code manufacturer_code assets =
     (let existing_assets = filter (same_codes country_code manufacturer_code) assets in
      if existing_assets = [] then 1
      else (let numbers = extract_numbers existing_assets [] in
            if numbers \<noteq> [] then py_max numbers + 1 else 1))"

text \<open>\<open>f"{country_code}-{manufacturer_code}-{next_number:04d}"\<close>\<close>

definition format_tag :: "string \<Rightarrow> string \<Rightarrow> int \<Rightarrow> string" where
  "format_tag country_code manufacturer_code n =
     country_code @ ''-'' @ manufacturer_code @ ''-'' @ format_04d n"

definition generate_asset_tag :: "string \<Rightarrow> string \<Rightarrow> asset list \<Rightarrow> string" where
  "generate_asset_tag country_code manufacturer_code assets =
     format_tag country_code manufacturer_code
       (next_number country_code manufacturer_code assets)"

text \<open>
  The derivation of the sequence number as the specification words it: every asset with
  both codes contributes the integer parsed from the trailing segment of its tag, parse
  failures are ignored, and the result is the maximum plus one, or 1 when nothing parsed.
\<close>

definition spec_next_number :: "string \<Rightarrow> string \<Rightarrow> asset list \<Rightarrow> int" where
  "spec_next_number country_code manufacturer_code assets =
     (let parsed = List.map_filter (\<lambda>a. py_int (last (py_split CHR ''-'' (get_tag a))))
                     (filter (same_codes country_code manufacturer_code) assets) in
      if parsed = [] then 1 else Max (set parsed) + 1)"

section \<open>Storage\<close>

text \<open>
  The repository client and the local file system are collaborators: their outcomes are
  parameters.  \<open>get_contents\<close> gives the revision token (\<open>sha\<close>) of the document, or \<open>None\<close>
  when the call raises; \<open>update_file\<close>, \<open>create_file\<close> and \<open>write_local\<close> say whether the call
  returns (\<open>True\<close>) or raises (\<open>False\<close>).  Every call made is recorded as an event.
\<close>

datatype 'd event =
    GetContents string
  | UpdateFile string string 'd string
  | CreateFile string string 'd
  | WriteLocal string 'd

record 'd repo =
  get_contents :: "string \<Rightarrow> string option"
  update_file :: "string \<Rightarrow> string \<Rightarrow> 'd \<Rightarrow> string \<Rightarrow> bool"
  create_file :: "string \<Rightarrow> string \<Rightarrow> 'd \<Rightarrow> bool"

record 'd tracker =
  use_github :: bool
  repo :: "'d repo option"
  write_local :: "string \<Rightarrow> 'd \<Rightarrow> bool"

definition data_file :: string where "data_file = ''assets.json''"
definition manufacturers_file :: string where "manufacturers_file = ''manufacturers.json''"
definition countries_file :: string where "countries_file = ''countries.json''"

text \<open>
  \<open>save_data_to_github\<close>: the inner \<open>try\<close> holds the read and the update, so an update that
  raises falls to the create call as a failed read does; a create that raises is caught by
  the outer handler.
\<close>

definition save_data_to_github :: "'d tracker \<Rightarrow> string \<Rightarrow> 'd \<Rightarrow> bool \<times> 'd event list" where
  "save_data_to_github t filename data =
     (case repo t of
        None \<Rightarrow> (False, [])
      | Some r \<Rightarrow>
          (case get_contents r filename of
             Some sha \<Rightarrow>
               if update_file r filename (''Update '' @ filename) data sha
               then (True, [GetContents filename,
                            UpdateFile filename (''Update '' @ filename) data sha])
               else (create_file r filename (''Create '' @ filename) data,
                     [GetContents filename,
                      UpdateFile filename (''Update '' @ filename) data sha,
                      CreateFile filename (''Create '' @ filename) data])
           | None \<Rightarrow>
               (create_file r filename (''Create '' @ filename) data,
                [GetContents filename, CreateFile filename (''Create '' @ filename) data])))"

definition save_data_to_file :: "'d tracker \<Rightarrow> string \<Rightarrow> 'd \<Rightarrow> bool \<times> 'd event list" where
  "save_data_to_file t filename data =
     (let filepath = ''data/'' @ filename in
      (write_local t filepath data, [WriteLocal filepath data]))"

text \<open>
  \<open>save_assets\<close>, \<open>save_manufacturers\<close> and \<open>save_countries\<close> have one body, with the file
  name as the only difference.
\<close>

definition save_collection :: "'d tracker \<Rightarrow> string \<Rightarrow> 'd \<Rightarrow> bool \<times> 'd event list" where
  "save_collection t filename data =
     (let (success, tr1) = (if use_github t then save_data_to_github t filename data
                            else (True, []));
          (saved, tr2) = save_data_to_file t filename data
      in (saved \<and> success, tr1 @ tr2))"

definition save_assets :: "asset list tracker \<Rightarrow> asset list \<Rightarrow> bool \<times> asset list event list" where
  "save_assets t assets = save_collection t data_file assets"

section \<open>The importer\<close>

datatype py_error = KeyError

text \<open>
  \<open>any(asset['tag'] == tag_line for asset in assets)\<close>: it stops at the first equal tag, and
  \<open>asset['tag']\<close> raises when the key is missing.
\<close>

fun any_tag_eq :: "asset list \<Rightarrow> string \<Rightarrow> py_error + bool" where
  "any_tag_eq [] tag_line = Inr False"
| "any_tag_eq (a # as) tag_line =
     (case map_of a ''tag'' of
        None \<Rightarrow> Inl KeyError
      | Some t \<Rightarrow> if t = tag_line then Inr True else any_tag_eq as tag_line)"

text \<open>
  The record built for an accepted line; \<open>now\<close> is the value of
  \<open>datetime.now().isoformat()\<close> at that moment.
\<close>

definition imported_asset :: "string \<Rightarrow> string \<Rightarrow> asset" where
  "imported_asset now tag_line =
     (let parts = py_split CHR ''-'' tag_line;
          country_code = py_strip (parts ! 0);
          manufacturer_code = py_strip (parts ! 1);
          tag_number = py_strip (parts ! 2)
      in [(''tag'', tag_line),
          (''country_code'', country_code),
          (''manufacturer_code'', manufacturer_code),
          (''name'', ''Imported Asset '' @ tag_number),
          (''date_created'', now)])"

text \<open>
  One turn of the loop on the pair of the caller's list and \<open>imported_count\<close>.  The clock
  gives the time of the reading after \<open>n\<close> earlier ones.
\<close>

definition import_line ::
  "(nat \<Rightarrow> string) \<Rightarrow> asset list \<times> nat \<Rightarrow> string \<Rightarrow> py_error + asset list \<times> nat" where
  "import_line clock st tag_line =
     (let (assets, imported_count) = st in
      if CHR ''-'' \<in> set tag_line \<and> length (py_split CHR ''-'' tag_line) = 3 then
        (case any_tag_eq assets tag_line of
           Inl e \<Rightarrow> Inl e
         | Inr found \<Rightarrow>
             if \<not> found
             then Inr (assets @ [imported_asset (clock imported_count) tag_line],
                       imported_count + 1)
             else Inr (assets, imported_count))
      else Inr (assets, imported_count))"

text \<open>
  The loop; an exception leaves it with the list as it is at that moment, since the
  appends are made in place.
\<close>

fun import_loop ::
  "(nat \<Rightarrow> string) \<Rightarrow> asset list \<times> nat \<Rightarrow> string list \<Rightarrow> (asset list \<times> nat) \<times> py_error option" where
  "import_loop clock st [] = (st, None)"
| "import_loop clock st (l # ls) =
     (case import_line clock st l of
        Inl e \<Rightarrow> (st, Some e)
      | Inr st' \<Rightarrow> import_loop clock st' ls)"

definition tag_lines_of :: "string \<Rightarrow> string list" where
  "tag_lines_of pasted_tags =
     map py_strip (filter (\<lambda>line. py_strip line \<noteq> []) (py_split CHR 0x0A pasted_tags))"

text \<open>
  \<open>import_existing_tags\<close> gives its return value, the caller's list afterwards and the
  storage calls made.
\<close>

definition import_existing_tags ::
  "asset list tracker \<Rightarrow> (nat \<Rightarrow> string) \<Rightarrow> asset list \<Rightarrow> string
     \<Rightarrow> bool \<times> asset list \<times> asset list event list" where
  "import_existing_tags t clock assets pasted_tags =
     (case import_loop clock (assets, 0) (tag_lines_of pasted_tags) of
        ((assets', imported_count), Some e) \<Rightarrow> (False, assets', [])
      | ((assets', imported_count), None) \<Rightarrow>
          if imported_count > 0
          then (let (ok, tr) = save_assets t assets' in (ok, assets', tr))
          else (False, assets', []))"

section \<open>Batch generation\<close>

text \<open>The record appended for the tag of turn \<open>i\<close> in \<open>show_tag_generator\<close>.\<close>

definition generated_asset ::
  "string \<Rightarrow> string \<Rightarrow> string \<Rightarrow> nat \<Rightarrow> string \<Rightarrow> string \<Rightarrow> asset" where
  "generated_asset country_code manufacturer_code asset_name i now tag =
     [(''tag'', tag),
      (''country_code'', country_code),
      (''manufacturer_code'', manufacturer_code),
      (''name'', asset_name @ '' #'' @ dec_digits (i + 1)),
      (''date_created'', now)]"

text \<open>
  The loop \<open>for i in range(num_tags)\<close> on the pair of \<open>generated_tags\<close> and
  \<open>current_assets\<close>, the latter starting as a copy of the assets.
\<close>

definition generate_turn ::
  "string \<Rightarrow> string \<Rightarrow> string \<Rightarrow> (nat \<Rightarrow> string) \<Rightarrow> nat
     \<Rightarrow> string list \<times> asset list \<Rightarrow> string list \<times> asset list" where
  "generate_turn country_code manufacturer_code asset_name clock i st =
     (let (generated_tags, current_assets) = st;
          tag = generate_asset_tag country_code manufacturer_code current_assets
      in (generated_tags @ [tag],
          current_assets @
            [generated_asset country_code manufacturer_code asset_name i (clock i) tag]))"

definition generate_tags ::
  "string \<Rightarrow> string \<Rightarrow> string \<Rightarrow> (nat \<Rightarrow> string) \<Rightarrow> nat \<Rightarrow> asset list
     \<Rightarrow> string list \<times> asset list" where
  "generate_tags country_code manufacturer_code asset_name clock num_tags assets =
     fold (generate_turn country_code manufacturer_code asset_name clock) [0..<num_tags]
       ([], assets)"

section \<open>Tags taken apart\<close>

text \<open>
  The two places that take a tag apart, put together: the importer's test for three parts
  and its stripped country and manufacturer codes, and the generator's \<open>int()\<close> of the last
  part.
\<close>

definition parse_tag :: "string \<Rightarrow> (string \<times> string \<times> int) option" where
  "parse_tag tag =
     (let parts = py_split CHR ''-'' tag in
      if CHR ''-'' \<in> set tag \<and> length parts = 3 then
        (case py_int (last parts) of
           Some n \<Rightarrow> Some (py_strip (parts ! 0), py_strip (parts ! 1), n)
         | None \<Rightarrow> None)
      else None)"

text \<open>
  The sequence part of a tag as the data model gives it: four digits with the zero padding,
  or more digits without a leading zero.
\<close>

definition padded_sequence :: "string \<Rightarrow> bool" where
  "padded_sequence ds \<longleftrightarrow>
     list_all is_digit ds \<and> (length ds = 4 \<or> (4 < length ds \<and> hd ds \<noteq> CHR ''0''))"

text \<open>
  A tag of the form CC-MM-NNNN: three parts, the codes without white space around them,
  and a padded sequence.
\<close>

definition well_formed_tag :: "string \<Rightarrow> bool" where
  "well_formed_tag tag \<longleftrightarrow>
     (let parts = py_split CHR ''-'' tag in
      length parts = 3 \<and> py_strip (parts ! 0) = parts ! 0 \<and> py_strip (parts ! 1) = parts ! 1
      \<and> padded_sequence (parts ! 2))"

section \<open>The invariant of the collection\<close>

definition tags_distinct :: "asset list \<Rightarrow> bool" where
  "tags_distinct assets \<longleftrightarrow> distinct (map (\<lambda>a. map_of a ''tag'') assets)"

section \<open>Reference lists\<close>

text \<open>
  An entry of the countries or the manufacturers list; the program reads both keys of
  every entry with \<open>c['code']\<close> and \<open>c['name']\<close>.
\<close>

record entry =
  code :: string
  name :: string


definition save_countries :: "entry list tracker \<Rightarrow> entry list \<Rightarrow> bool \<times> entry list event list" where
  "save_countries t countries = save_collection t countries_file countries"

definition save_manufacturers :: "entry list tracker \<Rightarrow> entry list \<Rightarrow> bool \<times> entry list event list" where
  "save_manufacturers t manufacturers = save_collection t manufacturers_file manufacturers"



section \<open>Concrete inputs\<close>

text \<open>A tracker whose repository refuses every call while the local file can be written.\<close>

definition failing_remote :: "asset list tracker" where
  "failing_remote =
     \<lparr>use_github = True,
      repo = Some \<lparr>get_contents = (\<lambda>_. None), update_file = (\<lambda>_ _ _ _. False),
                   create_file = (\<lambda>_ _ _. False)\<rparr>,
      write_local = (\<lambda>_ _. True)\<rparr>"

text \<open>A repository that holds every document at revision \<open>abc\<close> and accepts updates.\<close>

definition holding_repo :: "asset list repo" where
  "holding_repo =
     \<lparr>get_contents = (\<lambda>_. Some ''abc''), update_file = (\<lambda>_ _ _ _. True),
      create_file = (\<lambda>_ _ _. False)\<rparr>"

definition holding_remote :: "asset list tracker" where
  "holding_remote = \<lparr>use_github = True, repo = Some holding_repo, write_local = (\<lambda>_ _. True)\<rparr>"

section \<open>What the loops compute\<close>

text \<open>What one turn of the loop of \<open>generate_asset_tag\<close> adds to \<open>numbers\<close>, if anything.\<close>

definition tag_number :: "asset \<Rightarrow> int option" where
  "tag_number a =
     (if CHR ''-'' \<in> set (get_tag a) then py_int (last (py_split CHR ''-'' (get_tag a)))
      else None)"

text \<open>An asset of the pair EGY, ZE whose tag has no dash, and two with regular tags.\<close>

definition dashless_asset :: asset where
  "dashless_asset =
     [(''tag'', ''7''), (''country_code'', ''EGY''), (''manufacturer_code'', ''ZE'')]"

definition egy_ze_41 :: asset where
  "egy_ze_41 =
     [(''tag'', ''EGY-ZE-0041''), (''country_code'', ''EGY''), (''manufacturer_code'', ''ZE'')]"

definition ksa_de_1 :: asset where
  "ksa_de_1 =
     [(''tag'', ''KSA-DE-0001''), (''country_code'', ''KSA''), (''manufacturer_code'', ''DE'')]"

text \<open>A clock that always shows the same time, and trackers without a repository.\<close>

definition fixed_clock :: "nat \<Rightarrow> string" where
  "fixed_clock n = ''2024-01-01T00:00:00''"

definition local_only :: "asset list tracker" where
  "local_only = \<lparr>use_github = False, repo = None, write_local = (\<lambda>_ _. True)\<rparr>"



section \<open>Digits and numbers\<close>

lemma is_digit_iff: "is_digit c \<longleftrightarrow> (\<exists>d<10. c = digit_char d)"
proof
  assume "is_digit c"
  then consider "c = CHR ''0''" | "c = CHR ''1''" | "c = CHR ''2''" | "c = CHR ''3''" | "c = CHR ''4''"
    | "c = CHR ''5''" | "c = CHR ''6''" | "c = CHR ''7''" | "c = CHR ''8''" | "c = CHR ''9''"
    by (auto simp: is_digit_def)
  then show "\<exists>d<10. c = digit_char d"
  proof cases
    case 1 then show ?thesis by (intro exI[of _ 0]) (simp add: digit_char_def)
  next
    case 2 then show ?thesis by (intro exI[of _ 1]) (simp add: digit_char_def)
  next
    case 3 then show ?thesis by (intro exI[of _ 2]) (simp add: digit_char_def)
  next
    case 4 then show ?thesis by (intro exI[of _ 3]) (simp add: digit_char_def)
  next
    case 5 then show ?thesis by (intro exI[of _ 4]) (simp add: digit_char_def)
  next
    case 6 then show ?thesis by (intro exI[of _ 5]) (simp add: digit_char_def)
  next
    case 7 then show ?thesis by (intro exI[of _ 6]) (simp add: digit_char_def)
  next
    case 8 then show ?thesis by (intro exI[of _ 7]) (simp add: digit_char_def)
  next
    case 9 then show ?thesis by (intro exI[of _ 8]) (simp add: digit_char_def)
  next
    case 10 then show ?thesis by (intro exI[of _ 9]) (simp add: digit_char_def)
  qed
next
  assume "\<exists>d<10. c = digit_char d"
  then obtain d where d: "d < 10" "c = digit_char d" by blast
  have "d \<in> {0,1,2,3,4,5,6,7,8,9}" using d(1) by auto
  then show "is_digit c" unfolding d(2)
    by (auto simp: is_digit_def digit_char_def)
qed

lemma digit_val_digit_char: "d < 10 \<Longrightarrow> digit_val (digit_char d) = d"
proof -
  assume "d < 10"
  then have "d \<in> {0,1,2,3,4,5,6,7,8,9}" by auto
  then show ?thesis by (auto simp: digit_val_def digit_char_def)
qed

lemma digit_char_is_digit: "d < 10 \<Longrightarrow> is_digit (digit_char d)"
  using is_digit_iff by blast

lemma is_digit_plain:
  "is_digit c \<Longrightarrow> \<not> int_isspace c \<and> c \<noteq> CHR ''_'' \<and> c \<noteq> CHR ''+'' \<and> c \<noteq> CHR ''-''"
  by (auto simp: is_digit_def int_isspace_def)

lemma digit_char_zero: "digit_char 0 = CHR ''0''"
  by (simp add: digit_char_def)


lemma dec_digits_all: "list_all is_digit (dec_digits n)"
proof (induction n rule: dec_digits.induct)
  case (1 n)
  show ?case
  proof (cases "n < 10")
    case True
    then show ?thesis by (subst dec_digits.simps) (simp add: digit_char_is_digit)
  next
    case False
    with 1 show ?thesis by (subst dec_digits.simps) (simp add: digit_char_is_digit)
  qed
qed

lemma dec_digits_nonempty: "dec_digits n \<noteq> []"
  by (subst dec_digits.simps) simp

lemma digits_value_snoc:
  "c \<noteq> CHR ''_'' \<Longrightarrow> digits_value (ds @ [c]) = 10 * digits_value ds + digit_val c"
  by (simp add: digits_value_def)

lemma digits_value_single: "c \<noteq> CHR ''_'' \<Longrightarrow> digits_value [c] = digit_val c"
  by (simp add: digits_value_def)

lemma digits_value_dec: "digits_value (dec_digits n) = n"
proof (induction n rule: dec_digits.induct)
  case (1 n)
  show ?case
  proof (cases "n < 10")
    case True
    then show ?thesis
      by (subst dec_digits.simps)
        (simp add: digits_value_single digit_val_digit_char is_digit_plain digit_char_is_digit)
  next
    case False
    have "digit_char (n mod 10) \<noteq> CHR ''_''"
      using is_digit_plain [OF digit_char_is_digit [of "n mod 10"]] by simp
    with False 1 show ?thesis
      by (subst dec_digits.simps) (simp add: digits_value_snoc digit_val_digit_char)
  qed
qed

lemma fold_digits_zeros:
  "fold (\<lambda>c acc. if c = CHR ''_'' then acc else 10 * acc + digit_val c) (replicate k CHR ''0'') 0 = 0"
  by (induction k) (simp_all add: digit_val_def)

lemma digits_value_zeros: "digits_value (replicate k CHR ''0'' @ ds) = digits_value ds"
  unfolding digits_value_def fold_append comp_apply fold_digits_zeros ..

lemma valid_digits_all: "ds \<noteq> [] \<Longrightarrow> list_all is_digit ds \<Longrightarrow> valid_digits ds"
proof (induction ds rule: valid_digits.induct)
  case (3 c d r)
  then show ?case using is_digit_plain [of d] by auto
qed simp_all

lemma int_strip_plain:
  assumes "s \<noteq> []" "\<not> int_isspace (hd s)" "\<not> int_isspace (last s)"
  shows "int_strip s = s"
proof -
  have a: "dropWhile int_isspace s = s" using assms by (cases s) simp_all
  have "rev s \<noteq> []" "hd (rev s) = last s" using assms by (simp_all add: hd_rev)
  then have "dropWhile int_isspace (rev s) = rev s"
    using assms(3) by (cases "rev s") (simp, simp only: dropWhile.simps list.sel if_False)
  with a show ?thesis by (simp add: int_strip_def)
qed

lemma int_strip_digits: "list_all is_digit ds \<Longrightarrow> int_strip ds = ds"
proof (cases "ds = []")
  case True then show ?thesis by (simp add: int_strip_def)
next
  case False
  assume d: "list_all is_digit ds"
  have "hd ds \<in> set ds" "last ds \<in> set ds" using False by simp_all
  then have "is_digit (hd ds)" "is_digit (last ds)" using d by (auto simp: list_all_iff)
  then show ?thesis using False by (intro int_strip_plain) (auto dest: is_digit_plain)
qed

lemma py_int_digits:
  assumes "ds \<noteq> []" "list_all is_digit ds"
  shows "py_int ds = Some (int (digits_value ds))"
proof -
  obtain c r where cr: "ds = c # r" using assms(1) by (cases ds) auto
  then have "is_digit c" using assms(2) by simp
  then have "c \<noteq> CHR ''+''" "c \<noteq> CHR ''-''" using is_digit_plain by auto
  then show ?thesis
    using assms cr by (simp add: py_int_def int_strip_digits parse_digits_def valid_digits_all)
qed

text \<open>
  A separator of the range 0x1C to 0x1F next to the digits is removed by \<open>str.strip()\<close> but
  makes \<open>int()\<close> raise; a blank is skipped by both.
\<close>

lemma py_int_separator:
  "py_strip [CHR 0x1C, CHR ''7''] = ''7'' \<and> py_int [CHR 0x1C, CHR ''7''] = None
   \<and> py_int '' 7 '' = Some 7"
  by (simp add: py_strip_def py_isspace_def py_int_def int_strip_def int_isspace_def
      parse_digits_def is_digit_def digits_value_def digit_val_def)

lemma format_04d_nonneg:
  "0 \<le> n \<Longrightarrow> format_04d n = replicate (4 - length (dec_digits (nat n))) CHR ''0'' @ dec_digits (nat n)"
  by (simp add: format_04d_def Let_def)

lemma format_04d_digits: "0 \<le> n \<Longrightarrow> list_all is_digit (format_04d n) \<and> format_04d n \<noteq> []"
proof -
  assume n: "0 \<le> n"
  have "list_all is_digit (replicate k CHR ''0'')" for k
    by (simp add: list_all_iff is_digit_def)
  then show ?thesis
    by (simp add: format_04d_nonneg [OF n] dec_digits_all dec_digits_nonempty)
qed

lemma py_int_format_04d: "0 \<le> n \<Longrightarrow> py_int (format_04d n) = Some n"
proof -
  assume n: "0 \<le> n"
  have "py_int (format_04d n) = Some (int (digits_value (format_04d n)))"
    using format_04d_digits [OF n] by (intro py_int_digits) simp_all
  also have "digits_value (format_04d n) = nat n"
    by (simp add: format_04d_nonneg [OF n] digits_value_zeros digits_value_dec)
  finally show ?thesis using n by simp
qed

lemma format_04d_no_dash: "0 \<le> n \<Longrightarrow> CHR ''-'' \<notin> set (format_04d n)"
  using format_04d_digits [of n] is_digit_plain by (auto simp: list_all_iff)

section \<open>Splitting and joining\<close>

lemma py_split_nonempty: "py_split sep s \<noteq> []"
  by (induction s) (auto split: list.splits)

lemma length_py_split: "length (py_split sep s) = Suc (length (filter (\<lambda>c. c = sep) s))"
  by (induction s) (auto split: list.splits simp: py_split_nonempty)

lemma py_split_no_sep: "p \<in> set (py_split sep s) \<Longrightarrow> sep \<notin> set p"
  by (induction s arbitrary: p) (auto split: list.splits if_splits)

lemma py_split_plain: "sep \<notin> set s \<Longrightarrow> py_split sep s = [s]"
  by (induction s) auto

lemma last_py_split_append:
  "last (py_split sep (p @ sep # s)) = last (py_split sep s)"
proof (induction p)
  case Nil
  then show ?case by (simp add: py_split_nonempty)
next
  case (Cons c p)
  have "length (py_split sep (p @ sep # s)) \<ge> 2" by (simp add: length_py_split)
  then obtain q r qs where "py_split sep (p @ sep # s) = q # r # qs"
    by (cases "py_split sep (p @ sep # s)"; cases "tl (py_split sep (p @ sep # s))") auto
  with Cons show ?case by (auto simp: py_split_nonempty)
qed

lemma py_split_join:
  "py_split sep s = p # ps \<Longrightarrow> s = p @ concat (map (\<lambda>q. sep # q) ps)"
proof (induction s arbitrary: p ps)
  case Nil
  then show ?case by simp
next
  case (Cons c s)
  obtain q qs where q: "py_split sep s = q # qs"
    using py_split_nonempty [of sep s] by (cases "py_split sep s") auto
  show ?case
  proof (cases "c = sep")
    case True
    with Cons.prems q have "p = []" "ps = q # qs" by simp_all
    with Cons.IH [OF q] True show ?thesis by simp
  next
    case False
    with Cons.prems q have "p = c # q" "ps = qs" by simp_all
    with Cons.IH [OF q] show ?thesis by simp
  qed
qed

lemma py_split_three:
  assumes "length (py_split sep s) = 3"
  shows "s = py_split sep s ! 0 @ sep # py_split sep s ! 1 @ sep # py_split sep s ! 2"
proof -
  obtain a b c where abc: "py_split sep s = [a, b, c]"
    using assms by (auto simp: length_Suc_conv numeral_3_eq_3)
  from py_split_join [OF this] have "s = a @ sep # b @ sep # c" by simp
  then show ?thesis unfolding abc by simp
qed

section \<open>The numbers of the generator\<close>

lemma set_int_strip: "set (int_strip s) \<subseteq> set s"
proof -
  have "set (int_strip s) \<subseteq> set (dropWhile int_isspace s)"
    unfolding int_strip_def set_rev using set_dropWhileD by fastforce
  also have "\<dots> \<subseteq> set s" using set_dropWhileD by fastforce
  finally show ?thesis .
qed

lemma py_int_nonneg: "py_int s = Some n \<Longrightarrow> CHR ''-'' \<notin> set s \<Longrightarrow> 0 \<le> n"
  using set_int_strip [of s]
  by (auto simp: py_int_def parse_digits_def split: list.splits if_splits)

lemma tag_number_nonneg: "tag_number a = Some n \<Longrightarrow> 0 \<le> n"
proof -
  assume a: "tag_number a = Some n"
  have "last (py_split CHR ''-'' (get_tag a)) \<in> set (py_split CHR ''-'' (get_tag a))"
    by (simp add: py_split_nonempty)
  then have "CHR ''-'' \<notin> set (last (py_split CHR ''-'' (get_tag a)))"
    by (rule py_split_no_sep)
  with a show ?thesis by (auto simp: tag_number_def intro: py_int_nonneg split: if_splits)
qed

lemma extract_numbers_eq: "extract_numbers as numbers = numbers @ List.map_filter tag_number as"
  by (induction as arbitrary: numbers)
    (auto simp: tag_number_def Let_def split: option.splits)

lemma py_max_eq_Max: "ns \<noteq> [] \<Longrightarrow> py_max ns = Max (set ns)"
  by (cases ns) (simp_all add: py_max_def Max.set_eq_fold [symmetric])

lemma set_map_filter_tag_number:
  "set (List.map_filter tag_number (filter P as)) = {n. \<exists>a\<in>set as. P a \<and> tag_number a = Some n}"
  by (force simp: List.map_filter_def)

lemma next_number_eq:
  "next_number cc mc assets =
     (let N = {n. \<exists>a\<in>set assets. same_codes cc mc a \<and> tag_number a = Some n}
      in if N = {} then 1 else Max N + 1)"
proof -
  let ?ns = "List.map_filter tag_number (filter (same_codes cc mc) assets)"
  have s: "set ?ns = {n. \<exists>a\<in>set assets. same_codes cc mc a \<and> tag_number a = Some n}"
    by (rule set_map_filter_tag_number)
  have e: "filter (same_codes cc mc) assets = [] \<Longrightarrow> ?ns = []"
    by simp
  show ?thesis
  proof (cases "?ns = []")
    case True
    then have "set ?ns = {}" by simp
    then show ?thesis
      using True unfolding s [symmetric]
      by (simp add: next_number_def extract_numbers_eq Let_def)
  next
    case False
    then have "set ?ns \<noteq> {}" by simp
    then show ?thesis
      using False e unfolding s [symmetric]
      by (auto simp: next_number_def extract_numbers_eq Let_def py_max_eq_Max)
  qed
qed

lemma next_number_pos: "1 \<le> next_number cc mc assets"
proof -
  let ?N = "{n. \<exists>a\<in>set assets. same_codes cc mc a \<and> tag_number a = Some n}"
  have f: "finite ?N" unfolding set_map_filter_tag_number [symmetric] by simp
  show ?thesis
  proof (cases "?N = {}")
    case True then show ?thesis by (simp add: next_number_eq)
  next
    case False
    then have "Max ?N \<in> ?N" using f by (intro Max_in)
    then have "0 \<le> Max ?N" using tag_number_nonneg by blast
    then show ?thesis using False by (simp add: next_number_eq)
  qed
qed

lemma last_split_format_tag:
  "0 \<le> n \<Longrightarrow> last (py_split CHR ''-'' (format_tag cc mc n)) = format_04d n"
proof -
  assume n: "0 \<le> n"
  have "format_tag cc mc n = (cc @ CHR ''-'' # mc) @ CHR ''-'' # format_04d n"
    by (simp add: format_tag_def)
  then have "last (py_split CHR ''-'' (format_tag cc mc n)) = last (py_split CHR ''-'' (format_04d n))"
    by (simp only: last_py_split_append)
  then show ?thesis by (simp add: py_split_plain format_04d_no_dash [OF n])
qed

lemma sequence_of_format_tag:
  "0 \<le> n \<Longrightarrow> py_int (last (py_split CHR ''-'' (format_tag cc mc n))) = Some n"
  by (simp add: last_split_format_tag py_int_format_04d)

lemma dash_in_format_tag: "CHR ''-'' \<in> set (format_tag cc mc n)"
  by (simp add: format_tag_def)

section \<open>A batch of generations\<close>

lemma same_codes_generated [simp]:
  "same_codes cc mc (generated_asset cc mc nm i now tag)"
  by (simp add: same_codes_def generated_asset_def)

lemma get_tag_generated [simp]: "get_tag (generated_asset cc mc nm i now tag) = tag"
  by (simp add: get_tag_def generated_asset_def)

lemma tag_number_generated:
  "0 \<le> n \<Longrightarrow> tag_number (generated_asset cc mc nm i now (format_tag cc mc n)) = Some n"
  by (simp add: tag_number_def dash_in_format_tag sequence_of_format_tag)

text \<open>The records appended by the first \<open>k\<close> turns of a batch that starts at sequence 1.\<close>

lemma generate_tags_eq:
  assumes "\<forall>a\<in>set assets. \<not> same_codes cc mc a"
  shows "generate_tags cc mc nm clock k assets =
           (map (\<lambda>i. format_tag cc mc (int i + 1)) [0..<k],
            assets @ map (\<lambda>i. generated_asset cc mc nm i (clock i) (format_tag cc mc (int i + 1)))
                       [0..<k])"
proof (induction k)
  case 0
  then show ?case by (simp add: generate_tags_def)
next
  case (Suc k)
  let ?recs = "map (\<lambda>i. generated_asset cc mc nm i (clock i) (format_tag cc mc (int i + 1))) [0..<k]"
  let ?N = "{n. \<exists>a\<in>set (assets @ ?recs). same_codes cc mc a \<and> tag_number a = Some n}"
  have N: "?N = (\<lambda>i. int i + 1) ` {0..<k}"
  proof (intro set_eqI iffI)
    fix n assume "n \<in> ?N"
    then obtain a where a: "a \<in> set (assets @ ?recs)" "same_codes cc mc a" "tag_number a = Some n"
      by blast
    with assms have "a \<in> set ?recs" by auto
    then obtain i where "i < k" "a = generated_asset cc mc nm i (clock i) (format_tag cc mc (int i + 1))"
      by auto
    with a(3) have "n = int i + 1" "i \<in> {0..<k}"
      by (simp_all add: tag_number_generated)
    then show "n \<in> (\<lambda>i. int i + 1) ` {0..<k}" by (rule image_eqI)
  next
    fix n assume "n \<in> (\<lambda>i. int i + 1) ` {0..<k}"
    then obtain i where i: "i < k" "n = int i + 1" by auto
    then have "generated_asset cc mc nm i (clock i) (format_tag cc mc n) \<in> set (assets @ ?recs)"
      by auto
    moreover have "tag_number (generated_asset cc mc nm i (clock i) (format_tag cc mc n)) = Some n"
      using i by (simp add: tag_number_generated)
    ultimately show "n \<in> ?N" by (intro CollectI bexI [of _ "generated_asset cc mc nm i (clock i) (format_tag cc mc n)"]) simp_all
  qed
  have nx: "next_number cc mc (assets @ ?recs) = int k + 1"
  proof (cases k)
    case 0
    then show ?thesis using N by (simp add: next_number_eq)
  next
    case (Suc j)
    have "Max ((\<lambda>i. int i + 1) ` {0..<k}) = int j + 1"
      by (intro Max_eqI) (auto simp: Suc)
    then show ?thesis using N Suc by (simp add: next_number_eq Let_def)
  qed
  have "generate_tags cc mc nm clock (Suc k) assets =
          generate_turn cc mc nm clock k (generate_tags cc mc nm clock k assets)"
    by (simp add: generate_tags_def)
  also have "\<dots> = generate_turn cc mc nm clock k
                     (map (\<lambda>i. format_tag cc mc (int i + 1)) [0..<k], assets @ ?recs)"
    by (simp only: Suc.IH)
  finally show ?case
    by (simp add: generate_turn_def generate_asset_tag_def nx Let_def)
qed

section \<open>The loop of the importer\<close>

lemma any_tag_eq_False:
  "any_tag_eq assets l = Inr False \<longleftrightarrow>
     (\<forall>a\<in>set assets. \<exists>t. map_of a ''tag'' = Some t \<and> t \<noteq> l)"
  by (induction assets) (auto split: option.splits)

lemma any_tag_eq_present:
  "\<exists>a\<in>set assets. map_of a ''tag'' = Some l \<Longrightarrow>
     any_tag_eq assets l = Inr True
     \<or> (any_tag_eq assets l = Inl KeyError \<and> (\<exists>a\<in>set assets. map_of a ''tag'' = None))"
  by (induction assets) (auto split: option.splits)

lemma tag_of_imported [simp]: "map_of (imported_asset now l) ''tag'' = Some l"
  by (simp add: imported_asset_def Let_def)

lemma import_line_cases:
  assumes "import_line clock (assets, n) l = Inr (assets', n')"
  shows "(assets' = assets \<and> n' = n)
         \<or> (assets' = assets @ [imported_asset (clock n) l] \<and> n' = n + 1
            \<and> length (py_split CHR ''-'' l) = 3 \<and> any_tag_eq assets l = Inr False)"
  using assms by (auto simp: import_line_def split: if_splits sum.splits)

lemma import_line_skip:
  "length (py_split CHR ''-'' l) \<noteq> 3 \<Longrightarrow> import_line clock (assets, n) l = Inr (assets, n)"
  by (simp add: import_line_def)

lemma tags_distinct_snoc:
  "tags_distinct (assets @ [r]) \<longleftrightarrow>
     tags_distinct assets \<and> (\<forall>a\<in>set assets. map_of a ''tag'' \<noteq> map_of r ''tag'')"
  by (auto simp: tags_distinct_def image_iff)

lemma import_line_distinct:
  assumes "import_line clock (assets, n) l = Inr (assets', n')" "tags_distinct assets"
  shows "tags_distinct assets'"
proof -
  from import_line_cases [OF assms(1)] show ?thesis
  proof
    assume "assets' = assets \<and> n' = n"
    with assms(2) show ?thesis by simp
  next
    assume a: "assets' = assets @ [imported_asset (clock n) l] \<and> n' = n + 1
               \<and> length (py_split CHR ''-'' l) = 3 \<and> any_tag_eq assets l = Inr False"
    then have "\<forall>a\<in>set assets. map_of a ''tag'' \<noteq> Some l"
      by (auto simp: any_tag_eq_False)
    with a assms(2) show ?thesis by (simp add: tags_distinct_snoc)
  qed
qed

lemma import_loop_result:
  assumes "import_loop clock (assets, n) ls = ((assets', n'), e)"
  shows "\<exists>new. assets' = assets @ new \<and> n' = n + length new
           \<and> (\<forall>r\<in>set new. \<exists>l\<in>set ls. map_of r ''tag'' = Some l
                 \<and> length (py_split CHR ''-'' l) = 3
                 \<and> (\<forall>a\<in>set assets. map_of a ''tag'' \<noteq> Some l))
           \<and> (tags_distinct assets \<longrightarrow> tags_distinct assets')"
  using assms
proof (induction ls arbitrary: assets n)
  case Nil
  then show ?case by simp
next
  case (Cons l ls)
  show ?case
  proof (cases "import_line clock (assets, n) l")
    case (Inl err)
    with Cons.prems show ?thesis by simp
  next
    case (Inr st)
    obtain a1 n1 where st: "st = (a1, n1)" by (cases st)
    from Inr st Cons.prems have loop: "import_loop clock (a1, n1) ls = ((assets', n'), e)"
      by simp
    from Cons.IH [OF loop] obtain new where new:
      "assets' = a1 @ new" "n' = n1 + length new"
      "\<forall>r\<in>set new. \<exists>l\<in>set ls. map_of r ''tag'' = Some l
           \<and> length (py_split CHR ''-'' l) = 3 \<and> (\<forall>a\<in>set a1. map_of a ''tag'' \<noteq> Some l)"
      "tags_distinct a1 \<longrightarrow> tags_distinct assets'"
      by blast
    have d: "tags_distinct assets \<longrightarrow> tags_distinct a1"
      using import_line_distinct Inr st by blast
    from import_line_cases [OF Inr [unfolded st]] show ?thesis
    proof
      assume "a1 = assets \<and> n1 = n"
      with new show ?thesis by (intro exI [of _ new]) auto
    next
      assume a: "a1 = assets @ [imported_asset (clock n) l] \<and> n1 = n + 1
                 \<and> length (py_split CHR ''-'' l) = 3 \<and> any_tag_eq assets l = Inr False"
      then have nl: "\<forall>a\<in>set assets. map_of a ''tag'' \<noteq> Some l"
        by (auto simp: any_tag_eq_False)
      show ?thesis
      proof (intro exI [of _ "imported_asset (clock n) l # new"] conjI)
        show "assets' = assets @ imported_asset (clock n) l # new" using a new(1) by simp
        show "n' = n + length (imported_asset (clock n) l # new)" using a new(2) by simp
        show "\<forall>r\<in>set (imported_asset (clock n) l # new). \<exists>l\<in>set (l # ls).
                 map_of r ''tag'' = Some l \<and> length (py_split CHR ''-'' l) = 3
                 \<and> (\<forall>a\<in>set assets. map_of a ''tag'' \<noteq> Some l)"
          using a nl new(3) by auto
        show "tags_distinct assets \<longrightarrow> tags_distinct assets'" using d new(4) by blast
      qed
    qed
  qed
qed

lemma import_existing_tags_result:
  assumes "import_existing_tags t clock assets pasted = (ok, assets', tr)"
  shows "\<exists>new. assets' = assets @ new
           \<and> (\<forall>r\<in>set new. \<exists>l\<in>set (tag_lines_of pasted). map_of r ''tag'' = Some l
                 \<and> length (py_split CHR ''-'' l) = 3
                 \<and> (\<forall>a\<in>set assets. map_of a ''tag'' \<noteq> Some l))
           \<and> (tags_distinct assets \<longrightarrow> tags_distinct assets')"
proof -
  obtain a1 n1 e where loop: "import_loop clock (assets, 0) (tag_lines_of pasted) = ((a1, n1), e)"
    by (metis surj_pair)
  have "assets' = a1"
    using assms loop by (auto simp: import_existing_tags_def split: option.splits if_splits prod.splits)
  with import_loop_result [OF loop] show ?thesis by blast
qed

section \<open>Padded sequences\<close>

lemma digit_char_digit_val: "is_digit c \<Longrightarrow> digit_char (digit_val c) = c \<and> digit_val c < 10"
  using is_digit_iff [of c] by (auto simp: digit_val_digit_char)

lemma dec_digits_small: "d < 10 \<Longrightarrow> dec_digits d = [digit_char d]"
  by (subst dec_digits.simps) simp

lemma dec_digits_step:
  "0 < v \<Longrightarrow> d < 10 \<Longrightarrow> dec_digits (10 * v + d) = dec_digits v @ [digit_char d]"
  by (subst dec_digits.simps) simp

lemma dec_digits_zero: "dec_digits 0 = ''0''"
  by (simp add: dec_digits_small digit_char_zero)

lemma digits_are_padded_dec:
  "ds \<noteq> [] \<Longrightarrow> list_all is_digit ds \<Longrightarrow>
     \<exists>k. ds = replicate k CHR ''0'' @ dec_digits (digits_value ds)"
proof (induction ds rule: rev_nonempty_induct)
  case (single c)
  then have c: "is_digit c" by simp
  then have "dec_digits (digits_value [c]) = [c]"
    using is_digit_plain [of c] digit_char_digit_val [of c]
    by (simp add: digits_value_single dec_digits_small)
  then show ?case by (intro exI [of _ 0]) simp
next
  case (snoc c ds)
  then have c: "is_digit c" and ds: "list_all is_digit ds" by simp_all
  from c have cu: "c \<noteq> CHR ''_''" and cv: "digit_char (digit_val c) = c" "digit_val c < 10"
    using is_digit_plain [of c] digit_char_digit_val [of c] by simp_all
  from snoc.IH [OF ds] obtain k where k: "ds = replicate k CHR ''0'' @ dec_digits (digits_value ds)"
    by blast
  have v: "digits_value (ds @ [c]) = 10 * digits_value ds + digit_val c"
    using cu by (rule digits_value_snoc)
  show ?case
  proof (cases "digits_value ds = 0")
    case True
    with k have "ds = replicate (Suc k) CHR ''0''"
      by (simp add: dec_digits_zero replicate_append_same)
    moreover have "dec_digits (digits_value (ds @ [c])) = [c]"
      using True v cv by (simp add: dec_digits_small)
    ultimately have "ds @ [c] = replicate (Suc k) CHR ''0'' @ dec_digits (digits_value (ds @ [c]))"
      by simp
    then show ?thesis by blast
  next
    case False
    then have "dec_digits (digits_value (ds @ [c])) = dec_digits (digits_value ds) @ [c]"
      using v cv by (simp add: dec_digits_step)
    with k have "ds @ [c] = replicate k CHR ''0'' @ dec_digits (digits_value (ds @ [c]))"
      by simp
    then show ?thesis by blast
  qed
qed

lemma format_04d_padded:
  assumes "padded_sequence ds"
  shows "format_04d (int (digits_value ds)) = ds"
proof -
  from assms have d: "list_all is_digit ds" and ne: "ds \<noteq> []"
    and l: "length ds = 4 \<or> (4 < length ds \<and> hd ds \<noteq> CHR ''0'')"
    by (auto simp: padded_sequence_def)
  from digits_are_padded_dec [OF ne d] obtain k where
    k: "ds = replicate k CHR ''0'' @ dec_digits (digits_value ds)" by blast
  let ?d = "dec_digits (digits_value ds)"
  have len: "length ds = k + length ?d" by (subst k) simp
  from l show ?thesis
  proof
    assume "length ds = 4"
    with len have "4 - length ?d = k" by simp
    then show ?thesis using k by (simp add: format_04d_nonneg)
  next
    assume a: "4 < length ds \<and> hd ds \<noteq> CHR ''0''"
    have "k = 0"
    proof (rule ccontr)
      assume "k \<noteq> 0"
      then obtain j where "k = Suc j" by (cases k) auto
      with k have "hd ds = CHR ''0''" by (metis append_Cons list.sel(1) replicate_Suc)
      with a show False by simp
    qed
    with k len a have "ds = ?d" "4 - length ?d = 0" by simp_all
    then show ?thesis by (simp add: format_04d_nonneg)
  qed
qed

section \<open>A generated tag is new for its pair\<close>

lemma generated_tag_is_new:
  assumes "a \<in> set assets" "same_codes cc mc a"
  shows "map_of a ''tag'' \<noteq> Some (generate_asset_tag cc mc assets)"
proof
  assume t: "map_of a ''tag'' = Some (generate_asset_tag cc mc assets)"
  let ?k = "next_number cc mc assets"
  let ?N = "{n. \<exists>a\<in>set assets. same_codes cc mc a \<and> tag_number a = Some n}"
  have k: "0 \<le> ?k" using next_number_pos [of cc mc assets] by simp
  from t have "get_tag a = format_tag cc mc ?k"
    by (simp add: get_tag_def generate_asset_tag_def)
  then have "tag_number a = Some ?k"
    by (simp add: tag_number_def dash_in_format_tag sequence_of_format_tag [OF k])
  with assms have m: "?k \<in> ?N" by blast
  have f: "finite ?N" unfolding set_map_filter_tag_number [symmetric] by simp
  from m f have "?k \<le> Max ?N" by (intro Max_ge)
  moreover from m have "?k = Max ?N + 1" by (auto simp: next_number_eq Let_def)
  ultimately show False by simp
qed

lemma tag_of_generated [simp]: "map_of (generated_asset cc mc nm i now tag) ''tag'' = Some tag"
  by (simp add: generated_asset_def)

section \<open>Codes of a reference list\<close>









section \<open>The tag generator\<close>

text \<open>
  C1, as the specification words it, fails: an asset of the pair whose tag has no dash is
  left out of the numbers by the generator, while its whole tag is the trailing segment
  and parses.  With the tag \<open>7\<close> the generator gives sequence 1 where the worded
  derivation gives 8.
\<close>

theorem generate_asset_tag_counterexample:
  "generate_asset_tag ''EGY'' ''ZE'' [dashless_asset] = ''EGY-ZE-0001''
   \<and> format_tag ''EGY'' ''ZE'' (spec_next_number ''EGY'' ''ZE'' [dashless_asset]) = ''EGY-ZE-0008''
   \<and> generate_asset_tag ''EGY'' ''ZE'' [dashless_asset]
       \<noteq> format_tag ''EGY'' ''ZE'' (spec_next_number ''EGY'' ''ZE'' [dashless_asset])"
  by code_simp

text \<open>
  C1, amended.  The generator keeps the assets that carry both codes; each of them whose tag
  contains a dash contributes the integer parsed from the part of the tag after the last
  dash, when it parses.  The tag returned is the two codes and the sequence number in four
  digits, its trailing part parses to that number, and the number is the maximum of the
  contributions plus one, or 1 when there is none.  When no asset carries both codes the
  sequence number is 1.
\<close>

theorem generate_asset_tag_sequence:
  "(let numbers = {n. \<exists>a\<in>set assets. same_codes cc mc a \<and> CHR ''-'' \<in> set (get_tag a)
                        \<and> py_int (last (py_split CHR ''-'' (get_tag a))) = Some n};
        sequence = (if numbers = {} then 1 else Max numbers + 1)
    in generate_asset_tag cc mc assets = cc @ ''-'' @ mc @ ''-'' @ format_04d sequence
       \<and> py_int (last (py_split CHR ''-'' (generate_asset_tag cc mc assets))) = Some sequence)
   \<and> ((\<forall>a\<in>set assets. \<not> same_codes cc mc a) \<longrightarrow>
        generate_asset_tag cc mc assets = cc @ ''-'' @ mc @ ''-0001'')"
proof -
  let ?N = "{n. \<exists>a\<in>set assets. same_codes cc mc a \<and> tag_number a = Some n}"
  have N: "{n. \<exists>a\<in>set assets. same_codes cc mc a \<and> CHR ''-'' \<in> set (get_tag a)
                \<and> py_int (last (py_split CHR ''-'' (get_tag a))) = Some n} = ?N"
    by (auto simp: tag_number_def)
  have g: "generate_asset_tag cc mc assets =
             format_tag cc mc (if ?N = {} then 1 else Max ?N + 1)"
    by (simp add: generate_asset_tag_def next_number_eq Let_def)
  have p: "0 \<le> (if ?N = {} then 1 else Max ?N + 1)"
    using next_number_pos [of cc mc assets] by (simp add: next_number_eq Let_def)
  have one: "format_04d 1 = ''0001''"
    by code_simp
  have "(\<forall>a\<in>set assets. \<not> same_codes cc mc a) \<Longrightarrow> ?N = {}" by blast
  then show ?thesis
    unfolding N Let_def g
    using sequence_of_format_tag [OF p, of cc mc] one
    by (auto simp: format_tag_def)
qed

theorem generate_asset_tag_sequence_witness:
  "\<not> same_codes ''EGY'' ''ZE'' ksa_de_1
   \<and> generate_asset_tag ''EGY'' ''ZE'' [ksa_de_1] = ''EGY-ZE-0001''
   \<and> py_int (last (py_split CHR ''-'' (generate_asset_tag ''EGY'' ''ZE'' [egy_ze_41, ksa_de_1])))
       = Some 42"
proof -
  have a: "\<forall>a\<in>set [ksa_de_1]. \<not> same_codes ''EGY'' ''ZE'' a"
    by (simp add: ksa_de_1_def same_codes_def)
  have n: "{n. \<exists>a\<in>set [egy_ze_41, ksa_de_1]. same_codes ''EGY'' ''ZE'' a
                 \<and> CHR ''-'' \<in> set (get_tag a)
                 \<and> py_int (last (py_split CHR ''-'' (get_tag a))) = Some n} = {41}"
    by (auto simp: egy_ze_41_def ksa_de_1_def same_codes_def get_tag_def py_int_def int_strip_def
        int_isspace_def parse_digits_def is_digit_def digits_value_def digit_val_def)
  from a generate_asset_tag_sequence [of "[ksa_de_1]" "''EGY''" "''ZE''"]
  have "generate_asset_tag ''EGY'' ''ZE'' [ksa_de_1] = ''EGY'' @ ''-'' @ ''ZE'' @ ''-0001''"
    by blast
  then have w1: "generate_asset_tag ''EGY'' ''ZE'' [ksa_de_1] = ''EGY-ZE-0001''" by simp
  have w2: "py_int (last (py_split CHR ''-''
              (generate_asset_tag ''EGY'' ''ZE'' [egy_ze_41, ksa_de_1]))) = Some 42"
    using generate_asset_tag_sequence [of "[egy_ze_41, ksa_de_1]" "''EGY''" "''ZE''",
        THEN conjunct1, unfolded Let_def n, THEN conjunct2]
    by simp
  from a w1 w2 show ?thesis by simp
qed

text \<open>
  C3.  When no asset of the snapshot carries both codes and the loop of the generator form
  runs \<open>num_tags\<close> turns, each feeding its record back into the snapshot of the next, the
  \<open>N\<close>-th tag generated (\<open>1 \<le> N \<le> num_tags\<close>) is the two codes with the sequence number
  \<open>N\<close>, and its trailing part parses to \<open>N\<close>.
\<close>

theorem nth_generated_sequence:
  assumes "\<forall>a\<in>set assets. \<not> same_codes cc mc a" and "1 \<le> N" and "N \<le> num_tags"
  shows "fst (generate_tags cc mc nm clock num_tags assets) ! (N - 1)
           = cc @ ''-'' @ mc @ ''-'' @ format_04d (int N)
         \<and> py_int (last (py_split CHR ''-''
              (fst (generate_tags cc mc nm clock num_tags assets) ! (N - 1)))) = Some (int N)
         \<and> length (fst (generate_tags cc mc nm clock num_tags assets)) = num_tags"
proof -
  have n: "N - 1 < num_tags" "int (N - 1) + 1 = int N" using assms(2,3) by auto
  have "fst (generate_tags cc mc nm clock num_tags assets) ! (N - 1) = format_tag cc mc (int N)"
    using n by (simp add: generate_tags_eq [OF assms(1)])
  moreover have "py_int (last (py_split CHR ''-'' (format_tag cc mc (int N)))) = Some (int N)"
    by (simp add: sequence_of_format_tag)
  ultimately show ?thesis
    by (simp add: format_tag_def generate_tags_eq [OF assms(1)])
qed

theorem nth_generated_sequence_witness:
  "\<not> same_codes ''EGY'' ''ZE'' ksa_de_1 \<and> (1::nat) \<le> 3 \<and> (3::nat) \<le> 3
   \<and> fst (generate_tags ''EGY'' ''ZE'' ''Printer'' fixed_clock 3 [ksa_de_1]) ! (3 - 1)
       = ''EGY-ZE-0003''"
proof -
  have a: "\<forall>a\<in>set [ksa_de_1]. \<not> same_codes ''EGY'' ''ZE'' a"
    by (simp add: ksa_de_1_def same_codes_def)
  have f: "format_04d (int 3) = ''0003''" by code_simp
  from nth_generated_sequence [OF a, of 3 3 "''Printer''" fixed_clock] a show ?thesis
    unfolding f by simp
qed

section \<open>Tags taken apart and put together\<close>

text \<open>
  C4.  A well-formed tag (three parts, codes without white space around them, and a
  sequence of four digits, or of more digits without a leading zero) parses into its two
  codes and its sequence number, and formatting these gives the tag back.
\<close>

theorem parse_format_roundtrip:
  assumes "well_formed_tag tag"
  shows "\<exists>country_code manufacturer_code sequence.
           parse_tag tag = Some (country_code, manufacturer_code, sequence)
           \<and> format_tag country_code manufacturer_code sequence = tag"
proof -
  let ?parts = "py_split CHR ''-'' tag"
  from assms have l: "length ?parts = 3"
    and s0: "py_strip (?parts ! 0) = ?parts ! 0" and s1: "py_strip (?parts ! 1) = ?parts ! 1"
    and p: "padded_sequence (?parts ! 2)"
    by (simp_all add: well_formed_tag_def Let_def)
  from py_split_three [OF l]
  have t: "tag = ?parts ! 0 @ CHR ''-'' # ?parts ! 1 @ CHR ''-'' # ?parts ! 2" .
  then have dash: "CHR ''-'' \<in> set tag" by (metis in_set_conv_decomp)
  have la: "last ?parts = ?parts ! 2"
    using l by (simp add: last_conv_nth py_split_nonempty)
  from p have "?parts ! 2 \<noteq> []" "list_all is_digit (?parts ! 2)"
    by (auto simp: padded_sequence_def)
  then have i: "py_int (?parts ! 2) = Some (int (digits_value (?parts ! 2)))"
    by (rule py_int_digits)
  have "parse_tag tag = Some (?parts ! 0, ?parts ! 1, int (digits_value (?parts ! 2)))"
    using l dash la i s0 s1 by (simp add: parse_tag_def Let_def)
  moreover have "format_tag (?parts ! 0) (?parts ! 1) (int (digits_value (?parts ! 2))) = tag"
    using t by (simp add: format_tag_def format_04d_padded [OF p])
  ultimately show ?thesis by blast
qed

theorem parse_format_roundtrip_witness:
  "well_formed_tag ''EGY-ZE-0041''
   \<and> parse_tag ''EGY-ZE-0041'' = Some (''EGY'', ''ZE'', 41)
   \<and> format_tag ''EGY'' ''ZE'' 41 = ''EGY-ZE-0041''"
proof -
  have w: "well_formed_tag ''EGY-ZE-0041''"
    by (simp add: well_formed_tag_def padded_sequence_def py_strip_def py_isspace_def
        is_digit_def)
  have p: "parse_tag ''EGY-ZE-0041'' = Some (''EGY'', ''ZE'', 41)"
    by (simp add: parse_tag_def py_int_def py_strip_def py_isspace_def int_strip_def
        int_isspace_def parse_digits_def
        is_digit_def digits_value_def digit_val_def)
  from parse_format_roundtrip [OF w] p w show ?thesis by simp
qed

section \<open>The importer\<close>

text \<open>
  C5, as stated, fails: the importer only counts the parts of a line, it does not ask that
  they be non-empty.  The line \<open>--\<close> splits into three empty parts and is imported.
\<close>

theorem import_dashes_counterexample:
  "py_split CHR ''-'' ''--'' = [[], [], []]
   \<and> import_existing_tags local_only fixed_clock [] ''--'' =
       (True,
        [[(''tag'', ''--''), (''country_code'', []), (''manufacturer_code'', []),
          (''name'', ''Imported Asset ''), (''date_created'', ''2024-01-01T00:00:00'')]],
        [WriteLocal ''data/assets.json''
          [[(''tag'', ''--''), (''country_code'', []), (''manufacturer_code'', []),
            (''name'', ''Imported Asset ''), (''date_created'', ''2024-01-01T00:00:00'')]]])"
  by (simp add: import_existing_tags_def tag_lines_of_def py_strip_def py_isspace_def
      import_line_def imported_asset_def fixed_clock_def local_only_def save_assets_def
      save_collection_def save_data_to_file_def data_file_def Let_def)

text \<open>
  C5, amended.  A trimmed line is accepted only if splitting it on the dash gives exactly
  three parts, which may be empty.  A line that does not split into exactly three parts
  leaves the list and the count as they are; a turn of the loop that changes them appended
  the record of a line of three parts and added one to the count; and every record that
  an import appends carries a pasted line of three parts as its tag.
\<close>

theorem import_three_segments:
  "(length (py_split CHR ''-'' tag_line) \<noteq> 3 \<longrightarrow>
      import_line clock (assets, imported_count) tag_line = Inr (assets, imported_count))
   \<and> (import_line clock (assets, imported_count) tag_line = Inr (assets', imported_count')
        \<and> (assets', imported_count') \<noteq> (assets, imported_count) \<longrightarrow>
      length (py_split CHR ''-'' tag_line) = 3
      \<and> assets' = assets @ [imported_asset (clock imported_count) tag_line]
      \<and> imported_count' = imported_count + 1)
   \<and> (import_existing_tags t clock assets pasted_tags = (ok, final, tr) \<longrightarrow>
        (\<exists>new. final = assets @ new
           \<and> (\<forall>r\<in>set new. \<exists>l\<in>set (tag_lines_of pasted_tags).
                 map_of r ''tag'' = Some l \<and> length (py_split CHR ''-'' l) = 3)))"
proof (intro conjI impI)
  assume "length (py_split CHR ''-'' tag_line) \<noteq> 3"
  then show "import_line clock (assets, imported_count) tag_line = Inr (assets, imported_count)"
    by (rule import_line_skip)
next
  assume a: "import_line clock (assets, imported_count) tag_line = Inr (assets', imported_count')
             \<and> (assets', imported_count') \<noteq> (assets, imported_count)"
  from import_line_cases [OF a [THEN conjunct1]] a
  have b: "assets' = assets @ [imported_asset (clock imported_count) tag_line]
           \<and> imported_count' = imported_count + 1
           \<and> length (py_split CHR ''-'' tag_line) = 3"
    by auto
  from b show "length (py_split CHR ''-'' tag_line) = 3" by simp
  from b show "assets' = assets @ [imported_asset (clock imported_count) tag_line]" by simp
  from b show "imported_count' = imported_count + 1" by simp
next
  assume "import_existing_tags t clock assets pasted_tags = (ok, final, tr)"
  from import_existing_tags_result [OF this]
  show "\<exists>new. final = assets @ new
           \<and> (\<forall>r\<in>set new. \<exists>l\<in>set (tag_lines_of pasted_tags).
                 map_of r ''tag'' = Some l \<and> length (py_split CHR ''-'' l) = 3)"
    by blast
qed

theorem import_three_segments_witness:
  "length (py_split CHR ''-'' ''BADFORMAT'') \<noteq> 3
   \<and> import_line fixed_clock ([egy_ze_41], 0) ''BADFORMAT'' = Inr ([egy_ze_41], 0)
   \<and> import_line fixed_clock ([egy_ze_41], 0) ''KSA-DE-0001''
       = Inr ([egy_ze_41, imported_asset (fixed_clock 0) ''KSA-DE-0001''], 1)
   \<and> length (py_split CHR ''-'' ''KSA-DE-0001'') = 3"
proof -
  have a: "length (py_split CHR ''-'' ''BADFORMAT'') \<noteq> 3" by simp
  have b: "import_line fixed_clock ([egy_ze_41], 0) ''KSA-DE-0001''
             = Inr ([egy_ze_41, imported_asset (fixed_clock 0) ''KSA-DE-0001''], 1)"
    by (simp add: import_line_def egy_ze_41_def)
  from a b import_three_segments [of "''BADFORMAT''" fixed_clock "[egy_ze_41]" 0]
    import_three_segments [of "''KSA-DE-0001''" fixed_clock "[egy_ze_41]" 0
      "[egy_ze_41, imported_asset (fixed_clock 0) ''KSA-DE-0001'']" 1]
  show ?thesis by simp
qed

text \<open>
  C6.  A line equal to the tag of an asset of the list is skipped: the turn of the loop
  leaves the list and the count as they are (or the import stops on an asset without a
  tag, and nothing is appended either), and no record appended by an import has the tag
  of an asset that was already in the list.
\<close>

theorem import_skips_existing_tag:
  "((\<exists>a\<in>set assets. map_of a ''tag'' = Some tag_line) \<longrightarrow>
      import_line clock (assets, imported_count) tag_line = Inr (assets, imported_count)
      \<or> (import_line clock (assets, imported_count) tag_line = Inl KeyError
         \<and> (\<exists>a\<in>set assets. map_of a ''tag'' = None)))
   \<and> (import_existing_tags t clock assets pasted_tags = (ok, final, tr) \<longrightarrow>
        (\<exists>new. final = assets @ new
           \<and> (\<forall>r\<in>set new. \<forall>a\<in>set assets. map_of r ''tag'' \<noteq> map_of a ''tag'')))"
proof (intro conjI impI)
  assume "\<exists>a\<in>set assets. map_of a ''tag'' = Some tag_line"
  from any_tag_eq_present [OF this]
  show "import_line clock (assets, imported_count) tag_line = Inr (assets, imported_count)
      \<or> (import_line clock (assets, imported_count) tag_line = Inl KeyError
         \<and> (\<exists>a\<in>set assets. map_of a ''tag'' = None))"
    by (auto simp: import_line_def)
next
  assume "import_existing_tags t clock assets pasted_tags = (ok, final, tr)"
  from import_existing_tags_result [OF this] obtain new where
    n: "final = assets @ new"
       "\<forall>r\<in>set new. \<exists>l\<in>set (tag_lines_of pasted_tags). map_of r ''tag'' = Some l
            \<and> length (py_split CHR ''-'' l) = 3 \<and> (\<forall>a\<in>set assets. map_of a ''tag'' \<noteq> Some l)"
    by blast
  from n(2) have "\<forall>r\<in>set new. \<forall>a\<in>set assets. map_of r ''tag'' \<noteq> map_of a ''tag''"
    by metis
  with n(1) show "\<exists>new. final = assets @ new
           \<and> (\<forall>r\<in>set new. \<forall>a\<in>set assets. map_of r ''tag'' \<noteq> map_of a ''tag'')"
    by blast
qed

theorem import_skips_existing_tag_witness:
  "map_of egy_ze_41 ''tag'' = Some ''EGY-ZE-0041''
   \<and> import_line fixed_clock ([egy_ze_41], 0) ''EGY-ZE-0041'' = Inr ([egy_ze_41], 0)
   \<and> import_existing_tags local_only fixed_clock [egy_ze_41] ''EGY-ZE-0041''
       = (False, [egy_ze_41], [])"
proof -
  have a: "\<exists>a\<in>set [egy_ze_41]. map_of a ''tag'' = Some ''EGY-ZE-0041''"
    by (simp add: egy_ze_41_def)
  have b: "import_line fixed_clock ([egy_ze_41], 0) ''EGY-ZE-0041'' \<noteq> Inl KeyError"
    by (simp add: import_line_def egy_ze_41_def)
  have c: "import_existing_tags local_only fixed_clock [egy_ze_41] ''EGY-ZE-0041''
             = (False, [egy_ze_41], [])"
    by (simp add: import_existing_tags_def tag_lines_of_def py_strip_def py_isspace_def
        import_line_def egy_ze_41_def)
  from a b c import_skips_existing_tag [of "[egy_ze_41]" "''EGY-ZE-0041''" fixed_clock 0]
  show ?thesis by simp
qed



section \<open>Distinct tags\<close>

text \<open>
  C2, as stated, fails in its part (b): the generator only looks at the assets that carry
  both codes, and two pairs can give the same tag.  From the empty list, a generation for
  the country \<open>A-B\<close> and the manufacturer \<open>C\<close> followed by one for \<open>A\<close> and \<open>B-C\<close> appends
  the tag \<open>A-B-C-0001\<close> twice.
\<close>

theorem generated_tag_counterexample:
  "generate_asset_tag ''A-B'' ''C'' [] = ''A-B-C-0001''
   \<and> tags_distinct (snd (generate_turn ''A-B'' ''C'' ''Printer'' fixed_clock 0 ([], [])))
   \<and> generate_asset_tag ''A'' ''B-C''
        (snd (generate_turn ''A-B'' ''C'' ''Printer'' fixed_clock 0 ([], []))) = ''A-B-C-0001''
   \<and> \<not> tags_distinct
         (snd (generate_turn ''A'' ''B-C'' ''Printer'' fixed_clock 0
            ([], snd (generate_turn ''A-B'' ''C'' ''Printer'' fixed_clock 0 ([], [])))))"
  by code_simp

text \<open>
  C2, amended.  For a list whose tags are pairwise distinct: (a) the list after an import
  of any pasted text has pairwise distinct tags; (b) the tag generated for a pair differs
  from the tag of every asset of the list that carries both codes of the pair, and the
  list with the generated record appended has pairwise distinct tags whenever no asset
  that does not carry both codes already has the generated tag.
\<close>

theorem tags_stay_distinct:
  assumes "tags_distinct assets"
  shows "tags_distinct (fst (snd (import_existing_tags t clock assets pasted_tags)))
         \<and> (\<forall>a\<in>set assets. same_codes cc mc a \<longrightarrow>
               map_of a ''tag'' \<noteq> Some (generate_asset_tag cc mc assets))
         \<and> ((\<forall>a\<in>set assets. \<not> same_codes cc mc a \<longrightarrow>
                 map_of a ''tag'' \<noteq> Some (generate_asset_tag cc mc assets)) \<longrightarrow>
              tags_distinct (snd (generate_turn cc mc nm clock i (generated_tags, assets))))"
proof (intro conjI ballI impI)
  obtain ok final tr where r: "import_existing_tags t clock assets pasted_tags = (ok, final, tr)"
    by (metis prod_cases3)
  from import_existing_tags_result [OF r] assms have "tags_distinct final" by blast
  with r show "tags_distinct (fst (snd (import_existing_tags t clock assets pasted_tags)))"
    by simp
next
  fix a assume "a \<in> set assets" "same_codes cc mc a"
  then show "map_of a ''tag'' \<noteq> Some (generate_asset_tag cc mc assets)"
    by (rule generated_tag_is_new)
next
  assume o: "\<forall>a\<in>set assets. \<not> same_codes cc mc a \<longrightarrow>
               map_of a ''tag'' \<noteq> Some (generate_asset_tag cc mc assets)"
  have "\<forall>a\<in>set assets. map_of a ''tag'' \<noteq> Some (generate_asset_tag cc mc assets)"
    using o generated_tag_is_new by blast
  with assms show "tags_distinct (snd (generate_turn cc mc nm clock i (generated_tags, assets)))"
    by (simp add: generate_turn_def Let_def tags_distinct_snoc)
qed

theorem tags_stay_distinct_witness:
  "tags_distinct [egy_ze_41]
   \<and> tags_distinct (fst (snd (import_existing_tags local_only fixed_clock [egy_ze_41]
        ''EGY-ZE-0041'')))
   \<and> map_of ksa_de_1 ''tag'' \<noteq> Some (generate_asset_tag ''EGY'' ''ZE'' [egy_ze_41, ksa_de_1])
   \<and> tags_distinct (snd (generate_turn ''EGY'' ''ZE'' ''Printer'' fixed_clock 0
        ([], [egy_ze_41, ksa_de_1])))"
proof -
  have d1: "tags_distinct [egy_ze_41]" by (simp add: tags_distinct_def)
  have d2: "tags_distinct [egy_ze_41, ksa_de_1]"
    by (simp add: tags_distinct_def egy_ze_41_def ksa_de_1_def)
  have g: "generate_asset_tag ''EGY'' ''ZE'' [egy_ze_41, ksa_de_1] = ''EGY-ZE-0042''"
    by code_simp
  have k: "map_of ksa_de_1 ''tag'' \<noteq> Some (generate_asset_tag ''EGY'' ''ZE'' [egy_ze_41, ksa_de_1])"
    unfolding g by (simp add: ksa_de_1_def)
  have e: "same_codes ''EGY'' ''ZE'' egy_ze_41" by (simp add: same_codes_def egy_ze_41_def)
  from tags_stay_distinct [OF d1, where t = local_only and clock = fixed_clock
      and pasted_tags = "''EGY-ZE-0041''"]
  have a: "tags_distinct (fst (snd (import_existing_tags local_only fixed_clock [egy_ze_41]
        ''EGY-ZE-0041'')))" by blast
  from tags_stay_distinct [OF d2, where cc = "''EGY''" and mc = "''ZE''" and nm = "''Printer''"
      and clock = fixed_clock and i = 0 and generated_tags = "[]"] k e
  have b: "tags_distinct (snd (generate_turn ''EGY'' ''ZE'' ''Printer'' fixed_clock 0
        ([], [egy_ze_41, ksa_de_1])))" by simp
  from d1 a k b show ?thesis by blast
qed

section \<open>Reference lists\<close>




section \<open>Saving a collection\<close>

text \<open>
  C8.  When the remote backend is in use, a save of a collection calls the remote save and
  then always the local one (its write is the last event, whatever the remote save gave),
  and it reports success exactly when both succeeded.  \<open>save_assets\<close>, \<open>save_countries\<close> and
  \<open>save_manufacturers\<close> are this save on their file.
\<close>

theorem save_collection_dual_write:
  assumes "use_github t"
  shows "snd (save_collection t filename data) =
           snd (save_data_to_github t filename data) @ [WriteLocal (''data/'' @ filename) data]
         \<and> (fst (save_collection t filename data) \<longleftrightarrow>
              fst (save_data_to_github t filename data) \<and> write_local t (''data/'' @ filename) data)
         \<and> (\<forall>r. repo t = Some r \<longrightarrow>
              hd (snd (save_collection t filename data)) = GetContents filename)
         \<and> save_assets t = save_collection t ''assets.json''
         \<and> save_countries t' = save_collection t' ''countries.json''
         \<and> save_manufacturers t' = save_collection t' ''manufacturers.json''"
  using assms
  by (auto simp: save_collection_def save_data_to_file_def save_data_to_github_def
      save_assets_def save_countries_def save_manufacturers_def data_file_def countries_file_def
      manufacturers_file_def fun_eq_iff Let_def
      split: prod.splits option.splits)

theorem save_collection_dual_write_witness:
  "use_github failing_remote
   \<and> save_assets failing_remote [] =
       (False, [GetContents ''assets.json'', CreateFile ''assets.json'' ''Create assets.json'' [],
                WriteLocal ''data/assets.json'' []])"
  using save_collection_dual_write [of failing_remote "''assets.json''" "[]" undefined]
  by (simp add: failing_remote_def save_assets_def save_collection_def save_data_to_file_def
      save_data_to_github_def data_file_def)

text \<open>
  C9.  A remote save first reads the document.  When the read succeeds, the next call is
  the update, with the revision token that the read gave; when the read finds no document,
  the only other call is the create.
\<close>

theorem save_data_to_github_paths:
  assumes "repo t = Some r"
  shows "(\<forall>sha. get_contents r filename = Some sha \<longrightarrow>
            (\<exists>rest. snd (save_data_to_github t filename data) =
               GetContents filename # UpdateFile filename (''Update '' @ filename) data sha # rest))
         \<and> (get_contents r filename = None \<longrightarrow>
              snd (save_data_to_github t filename data) =
                [GetContents filename, CreateFile filename (''Create '' @ filename) data])"
  using assms by (simp add: save_data_to_github_def)

theorem save_data_to_github_paths_witness:
  "repo holding_remote = Some holding_repo
   \<and> get_contents holding_repo ''assets.json'' = Some ''abc''
   \<and> save_data_to_github holding_remote ''assets.json'' [] =
       (True, [GetContents ''assets.json'',
               UpdateFile ''assets.json'' ''Update assets.json'' [] ''abc''])
   \<and> repo failing_remote \<noteq> None
   \<and> save_data_to_github failing_remote ''assets.json'' [] =
       (False, [GetContents ''assets.json'',
                CreateFile ''assets.json'' ''Create assets.json'' []])"
  using save_data_to_github_paths [of holding_remote holding_repo "''assets.json''" "[]"]
  by (simp add: holding_remote_def holding_repo_def failing_remote_def save_data_to_github_def)

end
